theory Spec2Isabelle
  imports Main
begin

section \<open>The role cache of the staff reputation bot (src/utils/RoleCache.ts)\<close>

text \<open>
  The development embeds the class \<open>RoleCache\<close>: its fields, the refresh pass
  \<open>updateAllRoles\<close> with its two nested try blocks, the timer handling of
  \<open>initialize\<close>, \<open>startAutoUpdate\<close> and \<open>stopAutoUpdate\<close>, and the read queries.
  Console output is not modelled. What the class consumes from outside (the discord.js
  guild, the wall clock, the timers of the runtime, the staff configuration) is explicit:
  the provider and the configuration are parameters, the clock and the timers are a
  second state component threaded next to the instance.

  An operation is modelled from its call to the settling of its promise, with the clock
  advancing at each await by what the provider says. Two passes are never interleaved in
  the model: a state whose in-flight flag is set stands for the moment at which a call
  arrives while another pass is suspended at one of its awaits. Ranks and timestamps are
  integers.
\<close>

subsection \<open>JavaScript maps: insertion ordered, one value per key\<close>

text \<open>
  A JS \<open>Map\<close> (and the discord.js \<open>Collection\<close> that extends it) iterates in insertion
  order; \<open>set\<close> on a key already present replaces the value where it stands, on a new key
  it appends. The model is an association list; a well-formed map has distinct keys.
\<close>

type_synonym ('k, 'v) jsmap = "('k \<times> 'v) list"

type_synonym 'v Collection = "(string, 'v) jsmap"

definition wf_map :: "('k, 'v) jsmap \<Rightarrow> bool" where
  "wf_map m = distinct (map fst m)"

definition map_keys :: "('k, 'v) jsmap \<Rightarrow> 'k list" where
  "map_keys m = map fst m"

definition map_values :: "('k, 'v) jsmap \<Rightarrow> 'v list" where
  "map_values m = map snd m"

definition map_size :: "('k, 'v) jsmap \<Rightarrow> nat" where
  "map_size m = length m"

fun map_get :: "('k, 'v) jsmap \<Rightarrow> 'k \<Rightarrow> 'v option" where
  "map_get [] k = None"
| "map_get ((k', v) # m) k = (if k' = k then Some v else map_get m k)"

definition map_has :: "('k, 'v) jsmap \<Rightarrow> 'k \<Rightarrow> bool" where
  "map_has m k = (map_get m k \<noteq> None)"

fun map_set :: "('k, 'v) jsmap \<Rightarrow> 'k \<Rightarrow> 'v \<Rightarrow> ('k, 'v) jsmap" where
  "map_set [] k v = [(k, v)]"
| "map_set ((k', v') # m) k v = (if k' = k then (k, v) # m else (k', v') # map_set m k v)"

subsection \<open>Arrays: the stable sort with a comparator\<close>

text \<open>
  \<open>Array.prototype.sort(cmp)\<close> is stable: \<open>a\<close> is moved behind \<open>b\<close> only when
  \<open>cmp(a, b) > 0\<close>. Insertion from the right keeps equal elements in their order.
\<close>

fun sort_insert :: "('a \<Rightarrow> 'a \<Rightarrow> int) \<Rightarrow> 'a \<Rightarrow> 'a list \<Rightarrow> 'a list" where
  "sort_insert cmp x [] = [x]"
| "sort_insert cmp x (y # ys) =
     (if cmp x y \<le> 0 then x # y # ys else y # sort_insert cmp x ys)"

fun array_sort :: "('a \<Rightarrow> 'a \<Rightarrow> int) \<Rightarrow> 'a list \<Rightarrow> 'a list" where
  "array_sort cmp [] = []"
| "array_sort cmp (x # xs) = sort_insert cmp x (array_sort cmp xs)"

text \<open>\<open>Math.min(x, ...xs)\<close> on at least one argument.\<close>

fun math_min :: "int \<Rightarrow> int list \<Rightarrow> int" where
  "math_min x [] = x"
| "math_min x (y # ys) = math_min (min x y) ys"

subsection \<open>Data model\<close>

text \<open>
  A discord.js \<open>GuildMember\<close> is opaque to the cache: it is stored and handed back. Two
  fields stand for it, so that two member objects of one user can differ. A \<open>Role\<close> is
  read only through \<open>role.members\<close>, keyed by user id.
\<close>

datatype GuildMember = GuildMember (member_id: string) (displayName: string)

record Role =
  role_id :: string
  role_members :: "GuildMember Collection"

text \<open>An element of \<open>staffConfig.roles.staffHierarchy\<close>: \<open>{ id, name, rank }\<close>.\<close>

record RoleConfig =
  cfg_id :: string
  cfg_name :: string
  cfg_rank :: int

record RoleCacheEntry =
  roleId :: string
  roleName :: string
  rank :: int
  role :: Role
  members :: "GuildMember Collection"
  lastUpdated :: int

text \<open>The guild handle bound by \<open>initialize\<close>; the provider answers per handle.\<close>

datatype Guild = Guild string

text \<open>The fields of the class instance. A timer handle is a number.\<close>

record RoleCache =
  cache :: "(string, RoleCacheEntry) jsmap"
  guild :: "Guild option"
  updateInterval :: "nat option"
  isUpdating :: bool

text \<open>
  The runtime next to the instance: \<open>now\<close> is what \<open>Date.now()\<close> returns at this
  moment, \<open>timers\<close> are the intervals that \<open>setInterval\<close> created and \<open>clearInterval\<close>
  has not cancelled, \<open>nextTimer\<close> the next fresh handle, and \<open>bulkFetches\<close> counts the
  calls of \<open>guild.members.fetch()\<close> issued so far.
\<close>

record Runtime =
  now :: int
  timers :: "nat list"
  nextTimer :: nat
  bulkFetches :: nat

text \<open>
  A promise settles: it is fulfilled with a value or rejected with an error. The
  provider tells, for each awaited call, how many milliseconds pass until it settles and
  how. \<open>roles.fetch(id)\<close> is fulfilled with a role or with \<open>null\<close>, or rejected.
\<close>

datatype 'a settled = Fulfilled 'a | Rejected string

record Discord =
  members_fetch :: "Guild \<Rightarrow> nat \<times> unit settled"
  roles_fetch :: "Guild \<Rightarrow> string \<Rightarrow> nat \<times> Role option settled"

subsection \<open>Queries\<close>

definition getMembersByRole :: "RoleCache \<Rightarrow> string \<Rightarrow> GuildMember Collection option" where
  "getMembersByRole c rid =
     (case map_get (cache c) rid of Some entry \<Rightarrow> Some (members entry) | None \<Rightarrow> None)"

definition getRole :: "RoleCache \<Rightarrow> string \<Rightarrow> Role option" where
  "getRole c rid =
     (case map_get (cache c) rid of Some entry \<Rightarrow> Some (role entry) | None \<Rightarrow> None)"

definition getHighestStaffRole :: "RoleCache \<Rightarrow> string \<Rightarrow> RoleCacheEntry option" where
  "getHighestStaffRole c userId =
     (let entries = array_sort (\<lambda>a b. rank b - rank a)
                      (filter (\<lambda>entry. map_has (members entry) userId) (map_values (cache c)))
      in (case entries of [] \<Rightarrow> None | e # _ \<Rightarrow> Some e))"

definition isStaff :: "RoleCache \<Rightarrow> string \<Rightarrow> bool" where
  "isStaff c userId = list_ex (\<lambda>entry. map_has (members entry) userId) (map_values (cache c))"

text \<open>The inner loop of \<open>getAllStaffMembers\<close> over one entry's members, then the outer one.\<close>

fun addMembers :: "GuildMember Collection \<Rightarrow> (string \<times> GuildMember) list \<Rightarrow> GuildMember Collection" where
  "addMembers allStaff [] = allStaff"
| "addMembers allStaff ((userId, member) # rest) =
     addMembers (if \<not> map_has allStaff userId then map_set allStaff userId member else allStaff) rest"

fun addEntries :: "GuildMember Collection \<Rightarrow> RoleCacheEntry list \<Rightarrow> GuildMember Collection" where
  "addEntries allStaff [] = allStaff"
| "addEntries allStaff (entry # rest) = addEntries (addMembers allStaff (members entry)) rest"

definition getAllStaffMembers :: "RoleCache \<Rightarrow> GuildMember Collection" where
  "getAllStaffMembers c = addEntries [] (map_values (cache c))"

definition getRolesByRank :: "RoleCache \<Rightarrow> bool \<Rightarrow> RoleCacheEntry list" where
  "getRolesByRank c descending =
     (let entries = map_values (cache c)
      in if descending then array_sort (\<lambda>a b. rank b - rank a) entries
         else array_sort (\<lambda>a b. rank a - rank b) entries)"

record RoleBreakdown =
  rb_roleName :: string
  rb_rank :: int
  memberCount :: nat
  rb_roleId :: string

record Stats =
  totalRoles :: nat
  totalStaffMembers :: nat
  roleBreakdown :: "RoleBreakdown list"
  oldestCacheAge :: int

definition getStats :: "RoleCache \<Rightarrow> Runtime \<Rightarrow> Stats" where
  "getStats c w =
     (let allStaff = getAllStaffMembers c;
          breakdown = array_sort (\<lambda>a b. rb_rank b - rb_rank a)
            (map (\<lambda>entry. \<lparr>rb_roleName = roleName entry, rb_rank = rank entry,
                            memberCount = map_size (members entry), rb_roleId = roleId entry\<rparr>)
                 (map_values (cache c)));
          cacheEntries = map_values (cache c);
          oldestCache = (case cacheEntries of [] \<Rightarrow> now w
                         | e # es \<Rightarrow> math_min (lastUpdated e) (map lastUpdated es))
      in \<lparr>totalRoles = map_size (cache c), totalStaffMembers = map_size allStaff,
          roleBreakdown = breakdown, oldestCacheAge = now w - oldestCache\<rparr>)"

definition clear :: "RoleCache \<Rightarrow> RoleCache" where
  "clear c = c\<lparr>cache := []\<rparr>"

subsection \<open>The refresh pass\<close>

text \<open>
  One turn of the loop over \<open>staffHierarchy\<close>, with its own try block: the awaited
  \<open>roles.fetch\<close> lets the clock advance; a rejection is caught by the inner \<open>catch\<close>, a
  \<open>null\<close> role is skipped by \<open>continue\<close>, a role is stored with \<open>Date.now()\<close> read after
  the await.
\<close>

definition cacheRole :: "Discord \<Rightarrow> Guild \<Rightarrow> RoleConfig \<Rightarrow> RoleCache \<times> Runtime \<Rightarrow> RoleCache \<times> Runtime" where
  "cacheRole d g roleConfig cw =
     (case cw of (c, w) \<Rightarrow>
       (case roles_fetch d g (cfg_id roleConfig) of (dt, r) \<Rightarrow>
         (let w' = w\<lparr>now := now w + int dt\<rparr> in
           (case r of
              Rejected err \<Rightarrow> (c, w')
            | Fulfilled None \<Rightarrow> (c, w')
            | Fulfilled (Some rl) \<Rightarrow>
                (let cacheEntry = \<lparr>roleId = cfg_id roleConfig, roleName = cfg_name roleConfig,
                                   rank = cfg_rank roleConfig, role = rl,
                                   members = role_members rl, lastUpdated = now w'\<rparr>
                 in (c\<lparr>cache := map_set (cache c) (cfg_id roleConfig) cacheEntry\<rparr>, w'))))))"

fun cacheRoles :: "Discord \<Rightarrow> Guild \<Rightarrow> RoleConfig list \<Rightarrow> RoleCache \<times> Runtime \<Rightarrow> RoleCache \<times> Runtime" where
  "cacheRoles d g [] cw = cw"
| "cacheRoles d g (roleConfig # rest) cw = cacheRoles d g rest (cacheRole d g roleConfig cw)"

text \<open>
  The body of the outer try block: the bulk fetch, whose rejection leaves the block,
  then the loop.
\<close>

definition updateAllRoles_try ::
  "RoleConfig list \<Rightarrow> Discord \<Rightarrow> Guild \<Rightarrow> RoleCache \<times> Runtime \<Rightarrow> unit settled \<times> RoleCache \<times> Runtime" where
  "updateAllRoles_try staffHierarchy d g cw =
     (case cw of (c, w) \<Rightarrow>
       (case members_fetch d g of (dt, r) \<Rightarrow>
         (let w' = w\<lparr>now := now w + int dt, bulkFetches := Suc (bulkFetches w)\<rparr> in
           (case r of
              Rejected err \<Rightarrow> (Rejected err, c, w')
            | Fulfilled u \<Rightarrow>
                (case cacheRoles d g staffHierarchy (c, w') of
                   (c'', w'') \<Rightarrow> (Fulfilled (), c'', w''))))))"

text \<open>
  \<open>updateAllRoles\<close>: the two guards, the flag, the outer try block with its catch-all
  handler and the \<open>finally\<close> that clears the flag. The result is how the promise of the
  async function settles.
\<close>

definition updateAllRoles ::
  "RoleConfig list \<Rightarrow> Discord \<Rightarrow> RoleCache \<times> Runtime \<Rightarrow> unit settled \<times> RoleCache \<times> Runtime" where
  "updateAllRoles staffHierarchy d cw =
     (case cw of (c, w) \<Rightarrow>
       (case guild c of
          None \<Rightarrow> (Fulfilled (), c, w)
        | Some g \<Rightarrow>
            if isUpdating c then (Fulfilled (), c, w)
            else (case updateAllRoles_try staffHierarchy d g (c\<lparr>isUpdating := True\<rparr>, w) of
                    (r, c', w') \<Rightarrow>
                      ((case r of Rejected err \<Rightarrow> Fulfilled () | Fulfilled u \<Rightarrow> Fulfilled u),
                       c'\<lparr>isUpdating := False\<rparr>, w'))))"

definition startAutoUpdate :: "RoleCache \<times> Runtime \<Rightarrow> RoleCache \<times> Runtime" where
  "startAutoUpdate cw =
     (case cw of (c, w) \<Rightarrow>
        (c\<lparr>updateInterval := Some (nextTimer w)\<rparr>,
         w\<lparr>timers := timers w @ [nextTimer w], nextTimer := Suc (nextTimer w)\<rparr>))"

definition stopAutoUpdate :: "RoleCache \<times> Runtime \<Rightarrow> RoleCache \<times> Runtime" where
  "stopAutoUpdate cw =
     (case cw of (c, w) \<Rightarrow>
        (case updateInterval c of
           Some h \<Rightarrow> (c\<lparr>updateInterval := None\<rparr>, w\<lparr>timers := removeAll h (timers w)\<rparr>)
         | None \<Rightarrow> (c, w)))"

definition initialize ::
  "RoleConfig list \<Rightarrow> Discord \<Rightarrow> Guild \<Rightarrow> bool \<Rightarrow> RoleCache \<times> Runtime \<Rightarrow> unit settled \<times> RoleCache \<times> Runtime" where
  "initialize staffHierarchy d g autoUpdate cw =
     (case cw of (c, w) \<Rightarrow>
       (case updateAllRoles staffHierarchy d (c\<lparr>guild := Some g\<rparr>, w) of
          (r, c', w') \<Rightarrow>
            (case r of
               Rejected err \<Rightarrow> (Rejected err, c', w')
             | Fulfilled u \<Rightarrow>
                 if autoUpdate \<and> updateInterval c' = None
                 then (case startAutoUpdate (c', w') of (c'', w'') \<Rightarrow> (Fulfilled (), c'', w''))
                 else (Fulfilled (), c', w'))))"

definition refresh ::
  "RoleConfig list \<Rightarrow> Discord \<Rightarrow> RoleCache \<times> Runtime \<Rightarrow> unit settled \<times> RoleCache \<times> Runtime" where
  "refresh staffHierarchy d cw = updateAllRoles staffHierarchy d cw"

text \<open>The callback that \<open>startAutoUpdate\<close> hands to \<open>setInterval\<close>.\<close>

definition timerTick ::
  "RoleConfig list \<Rightarrow> Discord \<Rightarrow> RoleCache \<times> Runtime \<Rightarrow> unit settled \<times> RoleCache \<times> Runtime" where
  "timerTick staffHierarchy d cw = updateAllRoles staffHierarchy d cw"

text \<open>The instance that \<open>getInstance\<close> creates, and a runtime with no timer yet.\<close>

definition newRoleCache :: RoleCache where
  "newRoleCache = \<lparr>cache = [], guild = None, updateInterval = None, isUpdating = False\<rparr>"

definition bootRuntime :: "int \<Rightarrow> Runtime" where
  "bootRuntime t = \<lparr>now = t, timers = [], nextTimer = 0, bulkFetches = 0\<rparr>"

subsection \<open>Vocabulary for the statements\<close>

text \<open>
  What a pass sees of a configured role: \<open>resolveRole\<close> is the role that
  \<open>roles.fetch\<close> is fulfilled with, and nothing when it is fulfilled with \<open>null\<close> or
  rejected. \<open>entryOf\<close> names the entry that the loop body builds from a configuration
  element, a role and a clock reading.
\<close>

definition resolveRole :: "Discord \<Rightarrow> Guild \<Rightarrow> string \<Rightarrow> Role option" where
  "resolveRole d g rid =
     (case snd (roles_fetch d g rid) of Fulfilled r \<Rightarrow> r | Rejected err \<Rightarrow> None)"

definition entryOf :: "RoleConfig \<Rightarrow> Role \<Rightarrow> int \<Rightarrow> RoleCacheEntry" where
  "entryOf rc rl t = \<lparr>roleId = cfg_id rc, roleName = cfg_name rc, rank = cfg_rank rc,
                      role = rl, members = role_members rl, lastUpdated = t\<rparr>"




subsection \<open>A concrete guild\<close>

text \<open>
  The configuration of the spec's scenarios: Mod (rank 1), SrMod (rank 2), Admin (rank 3).
  User \<open>x\<close> holds Mod and Admin, \<open>y\<close> holds Mod, \<open>z\<close> holds SrMod. The member object of
  \<open>x\<close> under Admin carries another display name than the one under Mod, to tell the two
  apart. Resolving SrMod takes three milliseconds, the bulk fetch forty.
\<close>

definition exHierarchy :: "RoleConfig list" where
  "exHierarchy =
     [\<lparr>cfg_id = ''100'', cfg_name = ''Mod'', cfg_rank = 1\<rparr>,
      \<lparr>cfg_id = ''200'', cfg_name = ''SrMod'', cfg_rank = 2\<rparr>,
      \<lparr>cfg_id = ''300'', cfg_name = ''Admin'', cfg_rank = 3\<rparr>]"

definition modRole :: Role where
  "modRole = \<lparr>role_id = ''100'',
     role_members = [(''x'', GuildMember ''x'' ''Xena''), (''y'', GuildMember ''y'' ''Yuri'')]\<rparr>"

definition srModRole :: Role where
  "srModRole = \<lparr>role_id = ''200'', role_members = [(''z'', GuildMember ''z'' ''Zoe'')]\<rparr>"

definition adminRole :: Role where
  "adminRole = \<lparr>role_id = ''300'', role_members = [(''x'', GuildMember ''x'' ''Xena (admin)'')]\<rparr>"

definition exDiscord :: Discord where
  "exDiscord =
     \<lparr>members_fetch = (\<lambda>g. (40, Fulfilled ())),
      roles_fetch = (\<lambda>g rid.
        if rid = ''100'' then (0, Fulfilled (Some modRole))
        else if rid = ''200'' then (3, Fulfilled (Some srModRole))
        else if rid = ''300'' then (0, Fulfilled (Some adminRole))
        else (5, Rejected ''Unknown Role''))\<rparr>"

text \<open>The same guild after the Admin role was deleted (Scenario B).\<close>

definition exDiscordNoAdmin :: Discord where
  "exDiscordNoAdmin =
     \<lparr>members_fetch = (\<lambda>g. (40, Fulfilled ())),
      roles_fetch = (\<lambda>g rid.
        if rid = ''100'' then (0, Fulfilled (Some modRole))
        else if rid = ''200'' then (0, Fulfilled (Some srModRole))
        else if rid = ''300'' then (0, Fulfilled None)
        else (5, Rejected ''Unknown Role''))\<rparr>"

text \<open>The provider while the gateway is down: the bulk fetch is rejected after 9 ms.\<close>

definition exDiscordDown :: Discord where
  "exDiscordDown =
     \<lparr>members_fetch = (\<lambda>g. (9, Rejected ''GuildMembersTimeout'')),
      roles_fetch = (\<lambda>g rid. (0, Fulfilled None))\<rparr>"

text \<open>The instance after \<open>initialize\<close> against \<open>exDiscord\<close> at time 1000 (see \<open>exInit\<close> below).\<close>

definition exCache :: RoleCache where
  "exCache =
     \<lparr>cache = [(''100'', entryOf (exHierarchy ! 0) modRole 1040),
               (''200'', entryOf (exHierarchy ! 1) srModRole 1043),
               (''300'', entryOf (exHierarchy ! 2) adminRole 1043)],
      guild = Some (Guild ''g''), updateInterval = Some 0, isUpdating = False\<rparr>"

definition exRuntime :: Runtime where
  "exRuntime = \<lparr>now = 1043, timers = [0], nextTimer = 1, bulkFetches = 1\<rparr>"

text \<open>The instance after \<open>initialize\<close> against \<open>exDiscordNoAdmin\<close> at time 1000.\<close>

definition exCacheNoAdmin :: RoleCache where
  "exCacheNoAdmin =
     \<lparr>cache = [(''100'', entryOf (exHierarchy ! 0) modRole 1040),
               (''200'', entryOf (exHierarchy ! 1) srModRole 1040)],
      guild = Some (Guild ''g''), updateInterval = Some 0, isUpdating = False\<rparr>"

text \<open>
  A cache in which user \<open>x\<close> holds three roles, ranked 1, 5 and 3 in iteration order.
\<close>

definition exRanks :: RoleCache where
  "exRanks =
     \<lparr>cache = [(''11'', \<lparr>roleId = ''11'', roleName = ''Helper'', rank = 1, role = modRole,
                          members = role_members modRole, lastUpdated = 7\<rparr>),
               (''12'', \<lparr>roleId = ''12'', roleName = ''Owner'', rank = 5, role = modRole,
                          members = role_members modRole, lastUpdated = 7\<rparr>),
               (''13'', \<lparr>roleId = ''13'', roleName = ''Senior'', rank = 3, role = modRole,
                          members = role_members modRole, lastUpdated = 7\<rparr>)],
      guild = Some (Guild ''g''), updateInterval = None, isUpdating = False\<rparr>"

section \<open>Properties\<close>

subsection \<open>Maps and sorting\<close>

lemma map_get_set: "map_get (map_set m k v) k' = (if k' = k then Some v else map_get m k')"
  by (induction m) auto

lemma map_has_keys: "map_has m k \<longleftrightarrow> k \<in> set (map_keys m)"
  by (induction m) (force simp: map_has_def map_keys_def)+

lemma map_keys_set:
  "map_keys (map_set m k v) = (if k \<in> set (map_keys m) then map_keys m else map_keys m @ [k])"
  by (induction m) (fastforce simp: map_keys_def)+

lemma wf_map_set: "wf_map m \<Longrightarrow> wf_map (map_set m k v)"
  using map_keys_set [of m k v] by (auto simp: wf_map_def map_keys_def)

lemma map_size_set:
  "map_size (map_set m k v) = (if map_has m k then map_size m else Suc (map_size m))"
  by (induction m) (auto simp: map_has_def map_size_def split: if_splits)

lemma map_get_append:
  "map_get (xs @ ys) k = (case map_get xs k of Some v \<Rightarrow> Some v | None \<Rightarrow> map_get ys k)"
  by (induction xs) auto


lemma map_get_Some_mem: "map_get m k = Some v \<Longrightarrow> (k, v) \<in> set m"
  by (induction m) (auto split: if_splits)


lemma set_sort_insert: "set (sort_insert cmp x ys) = insert x (set ys)"
  by (induction ys) auto

lemma set_array_sort: "set (array_sort cmp xs) = set xs"
  by (induction xs) (auto simp: set_sort_insert)

lemma array_sort_Nil_iff: "array_sort cmp xs = [] \<longleftrightarrow> xs = []"
  using set_array_sort [of cmp xs] by (metis set_empty)

subsection \<open>Refresh while a pass is in flight\<close>

text \<open>
  Claim C2. In every state whose in-flight flag is set, \<open>refresh()\<close> is a no-op: its
  promise is fulfilled, the instance is returned as it was (no entry changes, no
  \<open>lastUpdated\<close> advances), and the runtime is untouched, so no bulk fetch is issued and
  no second pass starts.
\<close>

theorem refresh_in_flight_noop:
  "isUpdating c \<Longrightarrow> refresh staffHierarchy d (c, w) = (Fulfilled (), c, w)"
  by (simp add: refresh_def updateAllRoles_def split: option.splits)

theorem refresh_in_flight_noop_witness:
  "isUpdating (exCache\<lparr>isUpdating := True\<rparr>) \<and>
   refresh exHierarchy exDiscord (exCache\<lparr>isUpdating := True\<rparr>, exRuntime)
     = (Fulfilled (), exCache\<lparr>isUpdating := True\<rparr>, exRuntime)"
  using refresh_in_flight_noop [of "exCache\<lparr>isUpdating := True\<rparr>" exHierarchy exDiscord exRuntime]
  by simp

subsection \<open>Staff membership and the highest role\<close>

text \<open>
  Claim C6. For every cache state and every user id, \<open>isStaff\<close> answers true exactly
  when \<open>getHighestStaffRole\<close> returns an entry.
\<close>

theorem isStaff_iff_highest: "isStaff c u \<longleftrightarrow> getHighestStaffRole c u \<noteq> None"
proof -
  let ?fs = "filter (\<lambda>entry. map_has (members entry) u) (map_values (cache c))"
  have "getHighestStaffRole c u \<noteq> None \<longleftrightarrow> array_sort (\<lambda>a b. rank b - rank a) ?fs \<noteq> []"
    by (simp add: getHighestStaffRole_def split: list.splits)
  also have "\<dots> \<longleftrightarrow> ?fs \<noteq> []" by (simp add: array_sort_Nil_iff)
  also have "\<dots> \<longleftrightarrow> isStaff c u"
    by (simp add: isStaff_def list_ex_iff filter_empty_conv)
  finally show ?thesis by simp
qed

theorem isStaff_iff_highest_witness:
  "isStaff exCache ''x'' \<and> getHighestStaffRole exCache ''x'' \<noteq> None \<and>
   \<not> isStaff exCache ''w'' \<and> getHighestStaffRole exCache ''w'' = None"
proof -
  have "isStaff exCache ''x''"
    by (simp add: isStaff_def exCache_def entryOf_def map_values_def map_has_def
        modRole_def srModRole_def adminRole_def)
  moreover have "\<not> isStaff exCache ''w''"
    by (simp add: isStaff_def exCache_def entryOf_def map_values_def map_has_def
        modRole_def srModRole_def adminRole_def)
  ultimately show ?thesis
    using isStaff_iff_highest [of exCache "''x''"] isStaff_iff_highest [of exCache "''w''"]
    by simp
qed

text \<open>The head of the list sorted by descending rank has the greatest rank.\<close>

lemma array_sort_rank_head:
  "array_sort (\<lambda>a b. rank b - rank a) xs = e # es \<Longrightarrow> \<forall>e' \<in> set xs. rank e' \<le> rank (e::RoleCacheEntry)"
proof (induction xs arbitrary: e es)
  case Nil
  then show ?case by simp
next
  case (Cons x xs)
  show ?case
  proof (cases "array_sort (\<lambda>a b. rank b - rank a) xs")
    case Nil
    then have "xs = []" by (simp add: array_sort_Nil_iff)
    with Cons.prems show ?thesis by simp
  next
    case (Cons y ys)
    from Cons.IH [OF Cons] have ymax: "\<forall>e' \<in> set xs. rank e' \<le> rank y" .
    show ?thesis
    proof (cases "rank y - rank x \<le> 0")
      case True
      with Cons Cons.prems have "e = x" by simp
      with True ymax show ?thesis by auto
    next
      case False
      with Cons Cons.prems have "e = y" by simp
      with False ymax show ?thesis by auto
    qed
  qed
qed

text \<open>
  Claim C5. When some cached entry's member set contains the user, \<open>getHighestStaffRole\<close>
  returns an entry of the cache that contains the user and whose rank is greatest among
  the entries containing the user; when no entry contains the user it returns absent.
\<close>

theorem getHighestStaffRole_max:
  "((\<exists>e \<in> set (map_values (cache c)). map_has (members e) u) \<longrightarrow>
      (\<exists>e. getHighestStaffRole c u = Some e \<and> e \<in> set (map_values (cache c)) \<and>
           map_has (members e) u \<and>
           (\<forall>e' \<in> set (map_values (cache c)). map_has (members e') u \<longrightarrow> rank e' \<le> rank e))) \<and>
   (\<not> (\<exists>e \<in> set (map_values (cache c)). map_has (members e) u) \<longrightarrow>
      getHighestStaffRole c u = None)"
proof -
  let ?fs = "filter (\<lambda>entry. map_has (members entry) u) (map_values (cache c))"
  let ?ss = "array_sort (\<lambda>a b. rank b - rank a) ?fs"
  have none: "getHighestStaffRole c u = None" if "\<not> (\<exists>e \<in> set (map_values (cache c)). map_has (members e) u)"
  proof -
    from that have "?fs = []" by (simp add: filter_empty_conv)
    then show ?thesis by (simp add: getHighestStaffRole_def)
  qed
  have some: "\<exists>e. getHighestStaffRole c u = Some e \<and> e \<in> set (map_values (cache c)) \<and>
           map_has (members e) u \<and>
           (\<forall>e' \<in> set (map_values (cache c)). map_has (members e') u \<longrightarrow> rank e' \<le> rank e)"
    if "\<exists>e \<in> set (map_values (cache c)). map_has (members e) u"
  proof -
    from that have "?fs \<noteq> []" by (simp add: filter_empty_conv)
    then have "?ss \<noteq> []" by (simp add: array_sort_Nil_iff)
    then obtain e es where ss: "?ss = e # es" by (cases ?ss) auto
    then have res: "getHighestStaffRole c u = Some e" by (simp add: getHighestStaffRole_def)
    have "e \<in> set ?ss" using ss by simp
    then have mem: "e \<in> set ?fs" by (simp only: set_array_sort)
    have "\<forall>e' \<in> set ?fs. rank e' \<le> rank e" using array_sort_rank_head [OF ss] .
    with res mem show ?thesis by auto
  qed
  from none some show ?thesis by blast
qed

lemma exRanks_highest: "getHighestStaffRole exRanks ''x'' = Some (snd (cache exRanks ! 1))"
  by (simp add: getHighestStaffRole_def exRanks_def map_values_def map_has_def modRole_def)

theorem getHighestStaffRole_max_witness:
  "(\<exists>e \<in> set (map_values (cache exRanks)). map_has (members e) ''x'') \<and>
   (\<exists>e. getHighestStaffRole exRanks ''x'' = Some e \<and> rank e = 5 \<and> map_has (members e) ''x'' \<and>
        (\<forall>e' \<in> set (map_values (cache exRanks)). map_has (members e') ''x'' \<longrightarrow> rank e' \<le> rank e)) \<and>
   \<not> (\<exists>e \<in> set (map_values (cache exRanks)). map_has (members e) ''q'') \<and>
   getHighestStaffRole exRanks ''q'' = None"
proof -
  have a: "\<exists>e \<in> set (map_values (cache exRanks)). map_has (members e) ''x''"
    by (simp add: exRanks_def map_values_def map_has_def modRole_def)
  have b: "\<not> (\<exists>e \<in> set (map_values (cache exRanks)). map_has (members e) ''q'')"
    by (simp add: exRanks_def map_values_def map_has_def modRole_def)
  have r: "rank (snd (cache exRanks ! 1)) = 5" by (simp add: exRanks_def)
  from a b r exRanks_highest show ?thesis
    using getHighestStaffRole_max [of exRanks "''x''"] getHighestStaffRole_max [of exRanks "''q''"]
    by auto
qed

subsection \<open>All staff members\<close>

lemma map_get_addMembers: "map_get (addMembers acc ms) u = map_get (acc @ ms) u"
proof (induction ms arbitrary: acc)
  case Nil
  show ?case by simp
next
  case (Cons p ms)
  obtain k v where p: "p = (k, v)" by (cases p)
  show ?case
    by (simp add: p Cons.IH map_get_append map_get_set map_has_def split: option.splits)
qed

lemma map_get_addEntries:
  "map_get (addEntries acc es) u = map_get (acc @ concat (map members es)) u"
proof (induction es arbitrary: acc)
  case Nil
  show ?case by simp
next
  case (Cons e es)
  show ?case
    by (simp add: Cons.IH map_get_append map_get_addMembers split: option.splits)
qed

lemma map_get_concat_find:
  "map_get (concat (map members es)) u =
     (case find (\<lambda>e. map_has (members e) u) es of None \<Rightarrow> None | Some e \<Rightarrow> map_get (members e) u)"
  by (induction es) (auto simp: map_get_append map_has_def split: option.splits)

lemma keys_addMembers:
  "set (map_keys (addMembers acc ms)) = set (map_keys acc) \<union> set (map_keys ms)"
proof (induction ms arbitrary: acc)
  case Nil
  show ?case by (simp add: map_keys_def)
next
  case (Cons p ms)
  obtain k v where p: "p = (k, v)" by (cases p)
  have "set (map_keys (p # ms)) = insert k (set (map_keys ms))"
    by (simp add: p map_keys_def)
  then show ?case
    by (auto simp: p Cons.IH map_keys_set map_has_keys)
qed

lemma keys_addEntries:
  "set (map_keys (addEntries acc es)) = set (map_keys acc) \<union> set (concat (map (\<lambda>e. map_keys (members e)) es))"
  by (induction es arbitrary: acc) (auto simp: keys_addMembers)

lemma wf_addMembers: "wf_map acc \<Longrightarrow> wf_map (addMembers acc ms)"
proof (induction ms arbitrary: acc)
  case Nil
  then show ?case by simp
next
  case (Cons p ms)
  obtain k v where p: "p = (k, v)" by (cases p)
  from Cons.prems show ?case by (simp add: p Cons.IH wf_map_set)
qed

lemma wf_addEntries: "wf_map acc \<Longrightarrow> wf_map (addEntries acc es)"
  by (induction es arbitrary: acc) (auto simp: wf_addMembers)

lemma wf_map_size_card: "wf_map m \<Longrightarrow> map_size m = card (set (map_keys m))"
  using distinct_card [of "map fst m"] by (simp add: wf_map_def map_size_def map_keys_def)

lemma length_concat_members:
  "length (concat (map (\<lambda>e. map_keys (members e)) es)) = sum_list (map (\<lambda>e. map_size (members e)) es)"
  by (induction es) (auto simp: map_keys_def map_size_def)

lemma filter_has_empty:
  "filter (\<lambda>e. map_has (members e) u) es = [] \<longleftrightarrow> u \<notin> set (concat (map (\<lambda>e. map_keys (members e)) es))"
  by (induction es) (auto simp: map_has_keys)

lemma distinct_concat_members:
  "distinct (concat (map (\<lambda>e. map_keys (members e)) es)) \<longleftrightarrow>
     (\<forall>e \<in> set es. wf_map (members e)) \<and>
     (\<forall>u. length (filter (\<lambda>e. map_has (members e) u) es) \<le> 1)"
proof (induction es)
  case Nil
  show ?case by simp
next
  case (Cons e es)
  let ?ks = "concat (map (\<lambda>e. map_keys (members e)) es)"
  have disj: "set (map_keys (members e)) \<inter> set ?ks = {} \<longleftrightarrow>
        (\<forall>u. map_has (members e) u \<longrightarrow> filter (\<lambda>e. map_has (members e) u) es = [])"
    by (auto simp: filter_empty_conv map_has_keys)
  have split: "(\<forall>u. length (filter (\<lambda>e. map_has (members e) u) (e # es)) \<le> 1) \<longleftrightarrow>
        (\<forall>u. length (filter (\<lambda>e. map_has (members e) u) es) \<le> 1) \<and>
        (\<forall>u. map_has (members e) u \<longrightarrow> filter (\<lambda>e. map_has (members e) u) es = [])"
    by (auto split: if_splits)
  have "distinct (concat (map (\<lambda>e. map_keys (members e)) (e # es))) \<longleftrightarrow>
        distinct (map_keys (members e)) \<and> distinct ?ks \<and> set (map_keys (members e)) \<inter> set ?ks = {}"
    by simp
  also have "\<dots> \<longleftrightarrow> wf_map (members e) \<and> ((\<forall>e \<in> set es. wf_map (members e)) \<and>
     (\<forall>u. length (filter (\<lambda>e. map_has (members e) u) es) \<le> 1)) \<and>
        (\<forall>u. map_has (members e) u \<longrightarrow> filter (\<lambda>e. map_has (members e) u) es = [])"
    unfolding Cons.IH disj by (simp add: wf_map_def map_keys_def)
  also have "\<dots> \<longleftrightarrow> (\<forall>e \<in> set (e # es). wf_map (members e)) \<and>
     (\<forall>u. length (filter (\<lambda>e. map_has (members e) u) (e # es)) \<le> 1)"
    unfolding split by auto
  finally show ?case .
qed

text \<open>
  Claim C7. With every entry's member set a well-formed map, \<open>getAllStaffMembers\<close>
  returns a well-formed map whose keys are the union of the entries' keys and in which
  each user is bound to the member object of the first entry, in iteration order, that
  contains the user. Its size is at most the sum of the entries' member-set sizes, and
  equal to it exactly when no user is contained in more than one entry.
\<close>

theorem getAllStaffMembers_union:
  assumes wf: "\<forall>e \<in> set (map_values (cache c)). wf_map (members e)"
  shows "(\<forall>u. map_get (getAllStaffMembers c) u =
            (case find (\<lambda>e. map_has (members e) u) (map_values (cache c)) of
               None \<Rightarrow> None | Some e \<Rightarrow> map_get (members e) u)) \<and>
         wf_map (getAllStaffMembers c) \<and>
         set (map_keys (getAllStaffMembers c)) =
           (\<Union>e \<in> set (map_values (cache c)). set (map_keys (members e))) \<and>
         map_size (getAllStaffMembers c) \<le> sum_list (map (\<lambda>e. map_size (members e)) (map_values (cache c))) \<and>
         (map_size (getAllStaffMembers c) = sum_list (map (\<lambda>e. map_size (members e)) (map_values (cache c)))
            \<longleftrightarrow> (\<forall>u. length (filter (\<lambda>e. map_has (members e) u) (map_values (cache c))) \<le> 1))"
proof -
  let ?es = "map_values (cache c)"
  let ?ks = "concat (map (\<lambda>e. map_keys (members e)) ?es)"
  have get: "\<forall>u. map_get (getAllStaffMembers c) u =
            (case find (\<lambda>e. map_has (members e) u) ?es of
               None \<Rightarrow> None | Some e \<Rightarrow> map_get (members e) u)"
    by (simp add: getAllStaffMembers_def map_get_addEntries map_get_concat_find)
  have wfr: "wf_map (getAllStaffMembers c)"
    unfolding getAllStaffMembers_def by (rule wf_addEntries) (simp add: wf_map_def)
  have keys: "set (map_keys (getAllStaffMembers c)) = set ?ks"
    using keys_addEntries [of "[]" ?es] by (simp add: getAllStaffMembers_def map_keys_def)
  have size: "map_size (getAllStaffMembers c) = card (set ?ks)"
    using wf_map_size_card [OF wfr] keys by simp
  have len: "length ?ks = sum_list (map (\<lambda>e. map_size (members e)) ?es)"
    by (rule length_concat_members)
  have le: "map_size (getAllStaffMembers c) \<le> sum_list (map (\<lambda>e. map_size (members e)) ?es)"
    unfolding size len [symmetric] by (rule card_length)
  have "map_size (getAllStaffMembers c) = sum_list (map (\<lambda>e. map_size (members e)) ?es)
          \<longleftrightarrow> card (set ?ks) = length ?ks"
    unfolding size len ..
  also have "\<dots> \<longleftrightarrow> distinct ?ks"
    using card_distinct distinct_card by blast
  also have "\<dots> \<longleftrightarrow> (\<forall>u. length (filter (\<lambda>e. map_has (members e) u) ?es) \<le> 1)"
    unfolding distinct_concat_members using wf by simp
  finally have eq: "map_size (getAllStaffMembers c) = sum_list (map (\<lambda>e. map_size (members e)) ?es)
          \<longleftrightarrow> (\<forall>u. length (filter (\<lambda>e. map_has (members e) u) ?es) \<le> 1)" .
  have keys': "set (map_keys (getAllStaffMembers c)) = (\<Union>e \<in> set ?es. set (map_keys (members e)))"
    unfolding keys by simp
  from get wfr keys' le eq show ?thesis by blast
qed

lemma exCache_allStaff:
  "getAllStaffMembers exCache =
     [(''x'', GuildMember ''x'' ''Xena''), (''y'', GuildMember ''y'' ''Yuri''), (''z'', GuildMember ''z'' ''Zoe'')]"
  by (simp add: getAllStaffMembers_def exCache_def entryOf_def map_values_def map_has_def
      modRole_def srModRole_def adminRole_def)

theorem getAllStaffMembers_union_witness:
  "list_all (\<lambda>e. wf_map (members e)) (map_values (cache exCache)) \<and>
   map_get (getAllStaffMembers exCache) ''x'' = Some (GuildMember ''x'' ''Xena'') \<and>
   map_size (getAllStaffMembers exCache) = 3 \<and>
   sum_list (map (\<lambda>e. map_size (members e)) (map_values (cache exCache))) = 4 \<and>
   \<not> (\<forall>u. length (filter (\<lambda>e. map_has (members e) u) (map_values (cache exCache))) \<le> 1)"
proof -
  have wf: "\<forall>e \<in> set (map_values (cache exCache)). wf_map (members e)"
    by (simp add: exCache_def entryOf_def map_values_def wf_map_def
        modRole_def srModRole_def adminRole_def)
  have sz: "map_size (getAllStaffMembers exCache) = 3"
    by (simp add: exCache_allStaff map_size_def)
  have sm: "sum_list (map (\<lambda>e. map_size (members e)) (map_values (cache exCache))) = 4"
    by (simp add: exCache_def entryOf_def map_values_def map_size_def
        modRole_def srModRole_def adminRole_def)
  have gx: "map_get (getAllStaffMembers exCache) ''x'' = Some (GuildMember ''x'' ''Xena'')"
    by (simp add: exCache_allStaff)
  from getAllStaffMembers_union [OF wf] sz sm
  have "\<not> (\<forall>u. length (filter (\<lambda>e. map_has (members e) u) (map_values (cache exCache))) \<le> 1)"
    by simp
  with wf sz sm gx show ?thesis by (simp add: list_all_iff)
qed

subsection \<open>The loop over the configured roles\<close>

lemma cacheRole_eq:
  "cacheRole d g rc (c, w) =
     ((case resolveRole d g (cfg_id rc) of
         None \<Rightarrow> c
       | Some rl \<Rightarrow> c\<lparr>cache := map_set (cache c) (cfg_id rc)
                        (entryOf rc rl (now w + int (fst (roles_fetch d g (cfg_id rc)))))\<rparr>),
      w\<lparr>now := now w + int (fst (roles_fetch d g (cfg_id rc)))\<rparr>)"
  by (cases "roles_fetch d g (cfg_id rc)")
     (simp add: cacheRole_def resolveRole_def entryOf_def Let_def split: settled.splits option.splits)

lemma cacheRole_frame:
  assumes "cacheRole d g rc (c, w) = (c', w')"
  shows "guild c' = guild c \<and> updateInterval c' = updateInterval c \<and> isUpdating c' = isUpdating c \<and>
         timers w' = timers w \<and> nextTimer w' = nextTimer w \<and> bulkFetches w' = bulkFetches w \<and>
         now w \<le> now w'"
  using assms unfolding cacheRole_eq by (auto split: option.splits)

lemma cacheRoles_frame:
  "cacheRoles d g cfg (c, w) = (c', w') \<Longrightarrow>
     guild c' = guild c \<and> updateInterval c' = updateInterval c \<and> isUpdating c' = isUpdating c \<and>
     timers w' = timers w \<and> nextTimer w' = nextTimer w \<and> bulkFetches w' = bulkFetches w \<and>
     now w \<le> now w'"
proof (induction cfg arbitrary: c w)
  case Nil
  then show ?case by simp
next
  case (Cons rc cfg)
  obtain c1 w1 where step: "cacheRole d g rc (c, w) = (c1, w1)" by (cases "cacheRole d g rc (c, w)")
  with Cons.prems have rest: "cacheRoles d g cfg (c1, w1) = (c', w')" by simp
  from cacheRole_frame [OF step] Cons.IH [OF rest] show ?case by simp
qed

text \<open>A role that does not resolve, or is not configured, keeps its entry or its absence.\<close>

lemma cacheRoles_retained:
  "cacheRoles d g cfg (c, w) = (c', w') \<Longrightarrow>
   resolveRole d g rid = None \<or> rid \<notin> cfg_id ` set cfg \<Longrightarrow>
   map_get (cache c') rid = map_get (cache c) rid"
proof (induction cfg arbitrary: c w)
  case Nil
  then show ?case by simp
next
  case (Cons rc cfg)
  obtain c1 w1 where step: "cacheRole d g rc (c, w) = (c1, w1)" by (cases "cacheRole d g rc (c, w)")
  with Cons.prems have rest: "cacheRoles d g cfg (c1, w1) = (c', w')" by simp
  from Cons.prems(2) have cond: "resolveRole d g rid = None \<or> rid \<notin> cfg_id ` set cfg" by auto
  have "map_get (cache c1) rid = map_get (cache c) rid"
    using step Cons.prems(2) unfolding cacheRole_eq
    by (auto simp: map_get_set split: option.splits)
  with Cons.IH [OF rest cond] show ?case by simp
qed

text \<open>A configured role that resolves has, after the loop, an entry written in the loop.\<close>

lemma cacheRoles_written:
  "cacheRoles d g cfg (c, w) = (c', w') \<Longrightarrow> rid \<in> cfg_id ` set cfg \<Longrightarrow>
   resolveRole d g rid = Some rl \<Longrightarrow>
   \<exists>rc t. rc \<in> set cfg \<and> cfg_id rc = rid \<and> now w \<le> t \<and> t \<le> now w' \<and>
          map_get (cache c') rid = Some (entryOf rc rl t)"
proof (induction cfg arbitrary: c w)
  case Nil
  then show ?case by simp
next
  case (Cons r cfg)
  obtain c1 w1 where step: "cacheRole d g r (c, w) = (c1, w1)" by (cases "cacheRole d g r (c, w)")
  with Cons.prems have rest: "cacheRoles d g cfg (c1, w1) = (c', w')" by simp
  from cacheRole_frame [OF step] have mono1: "now w \<le> now w1" by simp
  from cacheRoles_frame [OF rest] have mono2: "now w1 \<le> now w'" by simp
  show ?case
  proof (cases "rid \<in> cfg_id ` set cfg")
    case True
    from Cons.IH [OF rest True Cons.prems(3)]
    obtain rc t where h: "rc \<in> set cfg" "cfg_id rc = rid" "now w1 \<le> t" "t \<le> now w'"
      "map_get (cache c') rid = Some (entryOf rc rl t)" by blast
    from h(3) mono1 have "now w \<le> t" by simp
    with h show ?thesis by (intro exI [of _ rc] exI [of _ t]) simp
  next
    case False
    with Cons.prems(2) have same: "cfg_id r = rid" by auto
    from False have keep: "map_get (cache c') rid = map_get (cache c1) rid"
      using cacheRoles_retained [OF rest] by simp
    have "map_get (cache c1) rid = Some (entryOf r rl (now w1))"
      using step Cons.prems(3) same unfolding cacheRole_eq
      by (auto simp: map_get_set)
    with keep same mono1 mono2 show ?thesis by (intro exI [of _ r] exI [of _ "now w1"]) simp
  qed
qed

lemma cacheRoles_keys:
  "cacheRoles d g cfg (c, w) = (c', w') \<Longrightarrow>
   set (map_keys (cache c')) =
     set (map_keys (cache c)) \<union> {k \<in> cfg_id ` set cfg. resolveRole d g k \<noteq> None}"
proof (induction cfg arbitrary: c w)
  case Nil
  then show ?case by simp
next
  case (Cons r cfg)
  obtain c1 w1 where step: "cacheRole d g r (c, w) = (c1, w1)" by (cases "cacheRole d g r (c, w)")
  with Cons.prems have rest: "cacheRoles d g cfg (c1, w1) = (c', w')" by simp
  have "set (map_keys (cache c1)) =
      set (map_keys (cache c)) \<union> (if resolveRole d g (cfg_id r) \<noteq> None then {cfg_id r} else {})"
    using step unfolding cacheRole_eq by (auto simp: map_keys_set split: option.splits if_splits)
  with Cons.IH [OF rest] show ?case by auto
qed

lemma cacheRoles_wf:
  "cacheRoles d g cfg (c, w) = (c', w') \<Longrightarrow> wf_map (cache c) \<Longrightarrow> wf_map (cache c')"
proof (induction cfg arbitrary: c w)
  case Nil
  then show ?case by simp
next
  case (Cons r cfg)
  obtain c1 w1 where step: "cacheRole d g r (c, w) = (c1, w1)" by (cases "cacheRole d g r (c, w)")
  with Cons.prems have rest: "cacheRoles d g cfg (c1, w1) = (c', w')" by simp
  have "wf_map (cache c1)"
    using step Cons.prems(2) unfolding cacheRole_eq by (auto simp: wf_map_set split: option.splits)
  with Cons.IH [OF rest] show ?case by simp
qed

subsection \<open>The three ways a refresh ends\<close>

lemma updateAllRoles_skip:
  "guild c = None \<or> isUpdating c \<Longrightarrow> updateAllRoles cfg d (c, w) = (Fulfilled (), c, w)"
  by (auto simp: updateAllRoles_def split: option.splits)

lemma updateAllRoles_rejected:
  assumes "guild c = Some g" "\<not> isUpdating c" "members_fetch d g = (dt, Rejected err)"
  shows "updateAllRoles cfg d (c, w) =
           (Fulfilled (), c, w\<lparr>now := now w + int dt, bulkFetches := Suc (bulkFetches w)\<rparr>)"
  using assms by (simp add: updateAllRoles_def updateAllRoles_try_def)

lemma updateAllRoles_pass:
  assumes "guild c = Some g" "\<not> isUpdating c" "members_fetch d g = (dt, Fulfilled ())"
    and "cacheRoles d g cfg (c\<lparr>isUpdating := True\<rparr>,
            w\<lparr>now := now w + int dt, bulkFetches := Suc (bulkFetches w)\<rparr>) = (c1, w1)"
  shows "updateAllRoles cfg d (c, w) = (Fulfilled (), c1\<lparr>isUpdating := False\<rparr>, w1)"
  using assms by (simp add: updateAllRoles_def updateAllRoles_try_def)

text \<open>Every run of \<open>updateAllRoles\<close> is one of: skipped, aborted by the bulk fetch, a full pass.\<close>

lemma updateAllRoles_cases:
  assumes "updateAllRoles cfg d (c, w) = (r, c', w')"
  obtains (skip) "guild c = None \<or> isUpdating c" "r = Fulfilled ()" "c' = c" "w' = w"
  | (abort) g dt err where "guild c = Some g" "\<not> isUpdating c" "members_fetch d g = (dt, Rejected err)"
      "r = Fulfilled ()" "c' = c" "w' = w\<lparr>now := now w + int dt, bulkFetches := Suc (bulkFetches w)\<rparr>"
  | (pass) g dt c1 where "guild c = Some g" "\<not> isUpdating c" "members_fetch d g = (dt, Fulfilled ())"
      "cacheRoles d g cfg (c\<lparr>isUpdating := True\<rparr>,
            w\<lparr>now := now w + int dt, bulkFetches := Suc (bulkFetches w)\<rparr>) = (c1, w')"
      "r = Fulfilled ()" "c' = c1\<lparr>isUpdating := False\<rparr>"
proof (cases "guild c = None \<or> isUpdating c")
  case True
  with assms updateAllRoles_skip [OF True, of cfg d w] show ?thesis by (intro skip) auto
next
  case False
  then obtain g where g: "guild c = Some g" and nu: "\<not> isUpdating c" by auto
  obtain dt fr where mf: "members_fetch d g = (dt, fr)" by (cases "members_fetch d g")
  show ?thesis
  proof (cases fr)
    case (Rejected err)
    with assms updateAllRoles_rejected [OF g nu, of d dt err cfg w] mf
    show ?thesis by (intro abort [of g dt err]) (use g nu in auto)
  next
    case (Fulfilled u)
    obtain c1 w1 where cr: "cacheRoles d g cfg (c\<lparr>isUpdating := True\<rparr>,
            w\<lparr>now := now w + int dt, bulkFetches := Suc (bulkFetches w)\<rparr>) = (c1, w1)"
      by (cases "cacheRoles d g cfg (c\<lparr>isUpdating := True\<rparr>,
            w\<lparr>now := now w + int dt, bulkFetches := Suc (bulkFetches w)\<rparr>)")
    from mf Fulfilled have mf': "members_fetch d g = (dt, Fulfilled ())" by simp
    from assms updateAllRoles_pass [OF g nu mf' cr] cr mf'
    show ?thesis by (intro pass [of g dt c1]) (use g nu in auto)
  qed
qed

lemma exInit:
  "initialize exHierarchy exDiscord (Guild ''g'') True (newRoleCache, bootRuntime 1000)
     = (Fulfilled (), exCache, exRuntime)"
  by (simp add: initialize_def updateAllRoles_def updateAllRoles_try_def cacheRole_def
      startAutoUpdate_def exHierarchy_def exDiscord_def newRoleCache_def bootRuntime_def
      exCache_def exRuntime_def entryOf_def)

subsection \<open>Failures inside a pass\<close>

lemma updateAllRoles_bulkFetches:
  assumes "guild c = Some g" "\<not> isUpdating c"
  shows "bulkFetches (snd (snd (updateAllRoles cfg d (c, w)))) = Suc (bulkFetches w)"
proof -
  obtain r c' w' where run: "updateAllRoles cfg d (c, w) = (r, c', w')"
    by (cases "updateAllRoles cfg d (c, w)")
  from run show ?thesis
  proof (cases rule: updateAllRoles_cases)
    case skip
    with assms show ?thesis by simp
  next
    case (abort g dt err)
    with run show ?thesis by simp
  next
    case (pass g dt c1)
    from cacheRoles_frame [OF pass(4)] run show ?thesis by simp
  qed
qed

text \<open>
  Claim C3. When a pass starts (a guild is bound, no pass is in flight) and the bulk
  member fetch is rejected, \<open>refresh()\<close> is fulfilled (nothing is thrown to the caller),
  the instance is exactly what it was (every entry, and the in-flight flag clear again),
  only the clock and the count of bulk fetches have moved; and from that instance any later
  \<open>refresh()\<close> passes both guards and issues its bulk fetch.
\<close>

theorem bulk_fetch_failure_aborts:
  assumes "guild c = Some g" and "\<not> isUpdating c" and "members_fetch d g = (dt, Rejected err)"
  shows "refresh staffHierarchy d (c, w) =
           (Fulfilled (), c, w\<lparr>now := now w + int dt, bulkFetches := Suc (bulkFetches w)\<rparr>) \<and>
         (\<forall>d' w'. bulkFetches (snd (snd (refresh staffHierarchy d' (c, w')))) = Suc (bulkFetches w'))"
  using updateAllRoles_rejected [OF assms] updateAllRoles_bulkFetches [OF assms(1,2)]
  by (simp add: refresh_def)

theorem bulk_fetch_failure_aborts_witness:
  "guild exCache = Some (Guild ''g'') \<and> \<not> isUpdating exCache \<and>
   members_fetch exDiscordDown (Guild ''g'') = (9, Rejected ''GuildMembersTimeout'') \<and>
   refresh exHierarchy exDiscordDown (exCache, exRuntime) =
     (Fulfilled (), exCache, \<lparr>now = 1052, timers = [0], nextTimer = 1, bulkFetches = 2\<rparr>) \<and>
   bulkFetches (snd (snd (refresh exHierarchy exDiscord
     (exCache, \<lparr>now = 1052, timers = [0], nextTimer = 1, bulkFetches = 2\<rparr>)))) = 3"
proof -
  have a: "guild exCache = Some (Guild ''g'')" by (simp add: exCache_def)
  have b: "\<not> isUpdating exCache" by (simp add: exCache_def)
  have c: "members_fetch exDiscordDown (Guild ''g'') = (9, Rejected ''GuildMembersTimeout'')"
    by (simp add: exDiscordDown_def)
  from bulk_fetch_failure_aborts [OF a b c, of exHierarchy exRuntime] a b c
  show ?thesis by (simp add: exRuntime_def)
qed

text \<open>
  Claim C9. In a refresh with a guild bound, a role id whose \<open>roles.fetch\<close> is fulfilled
  with \<open>null\<close> or rejected keeps exactly the entry it had (or stays absent). The pass
  goes on with the other roles: when the pass runs (no pass in flight, bulk fetch
  fulfilled), every configured role that resolves has afterwards an entry built from a
  configuration element of that id, the resolved role and a clock reading of this pass.
\<close>

theorem unresolved_role_retained:
  assumes "refresh staffHierarchy d (c, w) = (r, c', w')"
    and "guild c = Some g" and "resolveRole d g rid = None"
  shows "map_get (cache c') rid = map_get (cache c) rid \<and>
         (\<not> isUpdating c \<and> snd (members_fetch d g) = Fulfilled () \<longrightarrow>
            (\<forall>k \<in> cfg_id ` set staffHierarchy. \<forall>rl. resolveRole d g k = Some rl \<longrightarrow>
               (\<exists>rc t. rc \<in> set staffHierarchy \<and> cfg_id rc = k \<and> now w \<le> t \<and> t \<le> now w' \<and>
                       map_get (cache c') k = Some (entryOf rc rl t))))"
proof -
  from assms(1) have run: "updateAllRoles staffHierarchy d (c, w) = (r, c', w')"
    by (simp add: refresh_def)
  from run show ?thesis
  proof (cases rule: updateAllRoles_cases)
    case skip
    with assms(2) show ?thesis by simp
  next
    case (abort g' dt err)
    with assms(2) show ?thesis by simp
  next
    case (pass g' dt c1)
    with assms(2) have g': "g' = g" by simp
    note loop = pass(4) [unfolded g']
    have keep: "map_get (cache c') rid = map_get (cache c) rid"
      using cacheRoles_retained [OF loop, of rid] assms(3) pass(6) by simp
    have written: "\<exists>rc t. rc \<in> set staffHierarchy \<and> cfg_id rc = k \<and> now w \<le> t \<and> t \<le> now w' \<and>
                       map_get (cache c') k = Some (entryOf rc rl t)"
      if k: "k \<in> cfg_id ` set staffHierarchy" and rl: "resolveRole d g k = Some rl" for k rl
    proof -
      from cacheRoles_written [OF loop k rl]
      obtain rc t where h: "rc \<in> set staffHierarchy" "cfg_id rc = k"
        "now w + int dt \<le> t" "t \<le> now w'" "map_get (cache c1) k = Some (entryOf rc rl t)"
        by auto
      from h(3) have "now w \<le> t" by simp
      with h pass(6) show ?thesis by (intro exI [of _ rc] exI [of _ t]) simp
    qed
    from keep written show ?thesis by blast
  qed
qed

lemma exRefreshNoAdmin:
  "refresh exHierarchy exDiscordNoAdmin (exCache, exRuntime\<lparr>now := 5000\<rparr>) =
     (Fulfilled (),
      exCache\<lparr>cache := [(''100'', entryOf (exHierarchy ! 0) modRole 5040),
                         (''200'', entryOf (exHierarchy ! 1) srModRole 5040),
                         (''300'', entryOf (exHierarchy ! 2) adminRole 1043)]\<rparr>,
      \<lparr>now = 5040, timers = [0], nextTimer = 1, bulkFetches = 2\<rparr>)"
  by (simp add: refresh_def updateAllRoles_def updateAllRoles_try_def cacheRole_def
      exHierarchy_def exDiscordNoAdmin_def exCache_def exRuntime_def entryOf_def)

theorem unresolved_role_retained_witness:
  "guild exCache = Some (Guild ''g'') \<and> resolveRole exDiscordNoAdmin (Guild ''g'') ''300'' = None \<and>
   \<not> isUpdating exCache \<and> snd (members_fetch exDiscordNoAdmin (Guild ''g'')) = Fulfilled () \<and>
   map_get (cache (fst (snd (refresh exHierarchy exDiscordNoAdmin (exCache, exRuntime\<lparr>now := 5000\<rparr>))))) ''300''
     = Some (entryOf (exHierarchy ! 2) adminRole 1043) \<and>
   resolveRole exDiscordNoAdmin (Guild ''g'') ''200'' = Some srModRole \<and>
   (\<exists>rc t. rc \<in> set exHierarchy \<and> cfg_id rc = ''200'' \<and> 5000 \<le> t \<and> t \<le> 5040 \<and>
      map_get (cache (fst (snd (refresh exHierarchy exDiscordNoAdmin (exCache, exRuntime\<lparr>now := 5000\<rparr>))))) ''200''
        = Some (entryOf rc srModRole t))"
proof -
  let ?c' = "exCache\<lparr>cache := [(''100'', entryOf (exHierarchy ! 0) modRole 5040),
                         (''200'', entryOf (exHierarchy ! 1) srModRole 5040),
                         (''300'', entryOf (exHierarchy ! 2) adminRole 1043)]\<rparr>"
  have a: "guild exCache = Some (Guild ''g'')" by (simp add: exCache_def)
  have b: "resolveRole exDiscordNoAdmin (Guild ''g'') ''300'' = None"
    by (simp add: resolveRole_def exDiscordNoAdmin_def)
  have c: "\<not> isUpdating exCache" by (simp add: exCache_def)
  have d: "snd (members_fetch exDiscordNoAdmin (Guild ''g'')) = Fulfilled ()"
    by (simp add: exDiscordNoAdmin_def)
  have e: "resolveRole exDiscordNoAdmin (Guild ''g'') ''200'' = Some srModRole"
    by (simp add: resolveRole_def exDiscordNoAdmin_def)
  have k: "''200'' \<in> cfg_id ` set exHierarchy" by (simp add: exHierarchy_def)
  have old: "map_get (cache exCache) ''300'' = Some (entryOf (exHierarchy ! 2) adminRole 1043)"
    by (simp add: exCache_def)
  have post: "fst (snd (refresh exHierarchy exDiscordNoAdmin (exCache, exRuntime\<lparr>now := 5000\<rparr>))) = ?c'"
    by (simp add: exRefreshNoAdmin)
  note fact = unresolved_role_retained [OF exRefreshNoAdmin a b]
  from fact have keep: "map_get (cache ?c') ''300'' = map_get (cache exCache) ''300''"
    by (rule conjunct1)
  from fact c d k e
  have "\<exists>rc t. rc \<in> set exHierarchy \<and> cfg_id rc = ''200'' \<and> now (exRuntime\<lparr>now := 5000\<rparr>) \<le> t \<and>
          t \<le> now \<lparr>now = 5040, timers = [0], nextTimer = 1, bulkFetches = 2\<rparr> \<and>
          map_get (cache ?c') ''200'' = Some (entryOf rc srModRole t)"
    by blast
  then have fresh: "\<exists>rc t. rc \<in> set exHierarchy \<and> cfg_id rc = ''200'' \<and> 5000 \<le> t \<and> t \<le> 5040 \<and>
          map_get (cache ?c') ''200'' = Some (entryOf rc srModRole t)"
    by simp
  from a b c d e keep old fresh show ?thesis
    unfolding post by simp
qed

subsection \<open>What a refresh leaves alone\<close>

lemma updateAllRoles_frame:
  assumes "updateAllRoles cfg d (c, w) = (r, c', w')"
  shows "r = Fulfilled () \<and> guild c' = guild c \<and> updateInterval c' = updateInterval c \<and>
         isUpdating c' = isUpdating c \<and> timers w' = timers w \<and> nextTimer w' = nextTimer w \<and>
         now w \<le> now w'"
  using assms
proof (cases rule: updateAllRoles_cases)
  case skip
  then show ?thesis by simp
next
  case (abort g dt err)
  then show ?thesis by simp
next
  case (pass g dt c1)
  from cacheRoles_frame [OF pass(4)] pass(2,5,6) show ?thesis by simp
qed

lemma updateAllRoles_keys_mono:
  assumes "updateAllRoles cfg d (c, w) = (r, c', w')"
  shows "set (map_keys (cache c)) \<subseteq> set (map_keys (cache c'))"
  using assms
proof (cases rule: updateAllRoles_cases)
  case skip
  then show ?thesis by simp
next
  case (abort g dt err)
  then show ?thesis by simp
next
  case (pass g dt c1)
  from cacheRoles_keys [OF pass(4)] pass(6) show ?thesis by auto
qed

lemma updateAllRoles_wf:
  assumes "updateAllRoles cfg d (c, w) = (r, c', w')" and "wf_map (cache c)"
  shows "wf_map (cache c')"
  using assms(1)
proof (cases rule: updateAllRoles_cases)
  case skip
  with assms(2) show ?thesis by simp
next
  case (abort g dt err)
  with assms(2) show ?thesis by simp
next
  case (pass g dt c1)
  from cacheRoles_wf [OF pass(4)] assms(2) pass(6) show ?thesis by simp
qed

text \<open>\<open>initialize\<close> is the refresh on the rebound instance, then the guarded timer start.\<close>

lemma initialize_eq:
  assumes "updateAllRoles cfg d (c\<lparr>guild := Some g\<rparr>, w) = (r, c1, w1)"
  shows "initialize cfg d g autoUpdate (c, w) =
           (if autoUpdate \<and> updateInterval c1 = None
            then (Fulfilled (), c1\<lparr>updateInterval := Some (nextTimer w1)\<rparr>,
                  w1\<lparr>timers := timers w1 @ [nextTimer w1], nextTimer := Suc (nextTimer w1)\<rparr>)
            else (Fulfilled (), c1, w1))"
  using assms updateAllRoles_frame [OF assms]
  by (simp add: initialize_def startAutoUpdate_def)

lemma initialize_cache:
  "cache (fst (snd (initialize cfg d g autoUpdate (c, w)))) =
   cache (fst (snd (updateAllRoles cfg d (c\<lparr>guild := Some g\<rparr>, w))))"
proof -
  obtain r c1 w1 where run: "updateAllRoles cfg d (c\<lparr>guild := Some g\<rparr>, w) = (r, c1, w1)"
    by (cases "updateAllRoles cfg d (c\<lparr>guild := Some g\<rparr>, w)")
  show ?thesis unfolding initialize_eq [OF run] run by simp
qed

lemma updateAllRoles_has:
  assumes "map_has (cache c) rid"
  shows "map_has (cache (fst (snd (updateAllRoles cfg d (c, w))))) rid"
proof -
  obtain r c' w' where run: "updateAllRoles cfg d (c, w) = (r, c', w')"
    by (cases "updateAllRoles cfg d (c, w)")
  from updateAllRoles_keys_mono [OF run] assms show ?thesis
    by (auto simp: run map_has_keys)
qed

text \<open>
  Claim C10. A role id that has an entry keeps having one through \<open>initialize\<close>,
  \<open>refresh\<close>, the timer callback and \<open>stopAutoUpdate\<close>, whatever the provider answers
  and in whatever state the instance is; after \<open>clear\<close> it has none.
\<close>

theorem entries_never_removed:
  assumes "map_has (cache c) rid"
  shows "map_has (cache (fst (snd (initialize staffHierarchy d g autoUpdate (c, w))))) rid \<and>
         map_has (cache (fst (snd (refresh staffHierarchy d (c, w))))) rid \<and>
         map_has (cache (fst (snd (timerTick staffHierarchy d (c, w))))) rid \<and>
         map_has (cache (fst (stopAutoUpdate (c, w)))) rid \<and>
         \<not> map_has (cache (clear c)) rid"
proof -
  have "map_has (cache (c\<lparr>guild := Some g\<rparr>)) rid" using assms by simp
  from updateAllRoles_has [OF this]
  have init: "map_has (cache (fst (snd (initialize staffHierarchy d g autoUpdate (c, w))))) rid"
    by (simp only: initialize_cache)
  have stop: "map_has (cache (fst (stopAutoUpdate (c, w)))) rid"
    using assms by (simp add: stopAutoUpdate_def split: option.splits)
  have clr: "\<not> map_has (cache (clear c)) rid"
    by (simp add: clear_def map_has_def)
  from init updateAllRoles_has [OF assms] stop clr show ?thesis
    by (simp add: refresh_def timerTick_def)
qed

theorem entries_never_removed_witness:
  "map_has (cache exCache) ''300'' \<and>
   map_has (cache (fst (snd (initialize exHierarchy exDiscordNoAdmin (Guild ''h'') False (exCache, exRuntime))))) ''300'' \<and>
   map_has (cache (fst (snd (refresh exHierarchy exDiscordDown (exCache, exRuntime))))) ''300'' \<and>
   map_has (cache (fst (snd (timerTick exHierarchy exDiscordNoAdmin (exCache, exRuntime))))) ''300'' \<and>
   map_has (cache (fst (stopAutoUpdate (exCache, exRuntime)))) ''300'' \<and>
   \<not> map_has (cache (clear exCache)) ''300''"
proof -
  have a: "map_has (cache exCache) ''300''" by (simp add: exCache_def map_has_def)
  from a entries_never_removed [OF a, of exHierarchy exDiscordNoAdmin "Guild ''h''" False exRuntime]
    entries_never_removed [OF a, of exHierarchy exDiscordDown "Guild ''h''" False exRuntime]
  show ?thesis by simp
qed

subsection \<open>The first pass\<close>

lemma card_resolved_distinct:
  assumes "distinct (map f xs)"
  shows "card {k \<in> f ` set xs. P k} = length (filter (\<lambda>x. P (f x)) xs)"
proof -
  have eq: "{k \<in> f ` set xs. P k} = set (filter P (map f xs))" by auto
  have "distinct (filter P (map f xs))" using assms by simp
  then have "card {k \<in> f ` set xs. P k} = length (filter P (map f xs))"
    unfolding eq by (rule distinct_card)
  also have "\<dots> = length (filter (\<lambda>x. P (f x)) xs)"
    by (simp add: filter_map comp_def)
  finally show ?thesis .
qed

text \<open>
  Claim C8. \<open>initialize\<close> on an empty cache with no pass in flight and a fulfilled bulk
  fetch is fulfilled, and afterwards the cache holds exactly the configured role ids that
  resolve: \<open>getStats().totalRoles\<close> is their number, which for a configuration without
  repeated ids is the number of configuration elements that resolve. A role fulfilled with
  \<open>null\<close> or rejected has no entry.
\<close>

theorem initialize_totalRoles:
  assumes "cache c = []" and "\<not> isUpdating c" and "snd (members_fetch d g) = Fulfilled ()"
    and "initialize staffHierarchy d g autoUpdate (c, w) = (r, c', w')"
  shows "r = Fulfilled () \<and>
         totalRoles (getStats c' w'') =
           card {k \<in> cfg_id ` set staffHierarchy. resolveRole d g k \<noteq> None} \<and>
         (distinct (map cfg_id staffHierarchy) \<longrightarrow>
            totalRoles (getStats c' w'') =
              length (filter (\<lambda>rc. resolveRole d g (cfg_id rc) \<noteq> None) staffHierarchy)) \<and>
         (\<forall>k. map_has (cache c') k \<longleftrightarrow>
                k \<in> cfg_id ` set staffHierarchy \<and> resolveRole d g k \<noteq> None)"
proof -
  obtain r1 c1 w1 where run: "updateAllRoles staffHierarchy d (c\<lparr>guild := Some g\<rparr>, w) = (r1, c1, w1)"
    by (cases "updateAllRoles staffHierarchy d (c\<lparr>guild := Some g\<rparr>, w)")
  from assms(4) have r: "r = Fulfilled ()"
    unfolding initialize_eq [OF run] by (auto split: if_splits)
  have "cache c' = cache (fst (snd (initialize staffHierarchy d g autoUpdate (c, w))))"
    using assms(4) by simp
  then have cc: "cache c' = cache c1" by (simp only: initialize_cache run) simp
  have wf0: "wf_map (cache (c\<lparr>guild := Some g\<rparr>))" using assms(1) by (simp add: wf_map_def)
  from updateAllRoles_wf [OF run wf0] cc have wf: "wf_map (cache c')" by simp
  from run have keys: "set (map_keys (cache c1)) =
      {k \<in> cfg_id ` set staffHierarchy. resolveRole d g k \<noteq> None}"
  proof (cases rule: updateAllRoles_cases)
    case skip
    with assms(2) show ?thesis by simp
  next
    case (abort g' dt err)
    with assms(3) show ?thesis by simp
  next
    case (pass g' dt c2)
    then have "g' = g" by simp
    with cacheRoles_keys [OF pass(4)] pass(6) assms(1) show ?thesis by (simp add: map_keys_def)
  qed
  have size: "totalRoles (getStats c' w'') = card (set (map_keys (cache c')))"
    using wf_map_size_card [OF wf] by (simp add: getStats_def Let_def)
  have total: "totalRoles (getStats c' w'') =
      card {k \<in> cfg_id ` set staffHierarchy. resolveRole d g k \<noteq> None}"
    unfolding size cc keys ..
  have dist: "totalRoles (getStats c' w'') =
      length (filter (\<lambda>rc. resolveRole d g (cfg_id rc) \<noteq> None) staffHierarchy)"
    if "distinct (map cfg_id staffHierarchy)"
    unfolding total by (rule card_resolved_distinct [OF that])
  have has: "map_has (cache c') k \<longleftrightarrow> k \<in> cfg_id ` set staffHierarchy \<and> resolveRole d g k \<noteq> None" for k
    unfolding map_has_keys cc keys by simp
  from r total dist has show ?thesis by blast
qed

lemma exInitNoAdmin:
  "initialize exHierarchy exDiscordNoAdmin (Guild ''g'') True (newRoleCache, bootRuntime 1000) =
     (Fulfilled (), exCacheNoAdmin,
      \<lparr>now = 1040, timers = [0], nextTimer = 1, bulkFetches = 1\<rparr>)"
  by (simp add: initialize_def updateAllRoles_def updateAllRoles_try_def cacheRole_def
      startAutoUpdate_def exHierarchy_def exDiscordNoAdmin_def newRoleCache_def bootRuntime_def
      exCacheNoAdmin_def entryOf_def)

theorem initialize_totalRoles_witness:
  "cache newRoleCache = [] \<and> \<not> isUpdating newRoleCache \<and>
   snd (members_fetch exDiscordNoAdmin (Guild ''g'')) = Fulfilled () \<and>
   distinct (map cfg_id exHierarchy) \<and>
   fst (initialize exHierarchy exDiscordNoAdmin (Guild ''g'') True (newRoleCache, bootRuntime 1000))
     = Fulfilled () \<and>
   totalRoles (getStats
     (fst (snd (initialize exHierarchy exDiscordNoAdmin (Guild ''g'') True (newRoleCache, bootRuntime 1000))))
     (snd (snd (initialize exHierarchy exDiscordNoAdmin (Guild ''g'') True (newRoleCache, bootRuntime 1000)))))
     = 2 \<and>
   card {k \<in> cfg_id ` set exHierarchy. resolveRole exDiscordNoAdmin (Guild ''g'') k \<noteq> None} = 2 \<and>
   length (filter (\<lambda>rc. resolveRole exDiscordNoAdmin (Guild ''g'') (cfg_id rc) \<noteq> None) exHierarchy) = 2"
proof -
  have a: "cache newRoleCache = []" by (simp add: newRoleCache_def)
  have b: "\<not> isUpdating newRoleCache" by (simp add: newRoleCache_def)
  have c: "snd (members_fetch exDiscordNoAdmin (Guild ''g'')) = Fulfilled ()"
    by (simp add: exDiscordNoAdmin_def)
  have d: "distinct (map cfg_id exHierarchy)" by (simp add: exHierarchy_def)
  have n: "length (filter (\<lambda>rc. resolveRole exDiscordNoAdmin (Guild ''g'') (cfg_id rc) \<noteq> None) exHierarchy) = 2"
    by (simp add: exHierarchy_def resolveRole_def exDiscordNoAdmin_def)
  note fact = initialize_totalRoles [OF a b c exInitNoAdmin]
  have t: "totalRoles (getStats exCacheNoAdmin
      \<lparr>now = 1040, timers = [0], nextTimer = 1, bulkFetches = 1\<rparr>) = 2"
    by (simp add: getStats_def Let_def map_size_def exCacheNoAdmin_def)
  from fact [of "\<lparr>now = 1040, timers = [0], nextTimer = 1, bulkFetches = 1\<rparr>"] t
  have k: "card {k \<in> cfg_id ` set exHierarchy. resolveRole exDiscordNoAdmin (Guild ''g'') k \<noteq> None} = 2"
    by simp
  from a b c d n t k show ?thesis by (simp add: exInitNoAdmin)
qed

subsection \<open>The timer guard of initialize\<close>

text \<open>
  Claim C4, as the code has it. \<open>initialize\<close> starts a timer only behind the guard
  \<open>autoUpdate && !this.updateInterval\<close>: when a timer handle is stored, the handle, the
  active timers and the next fresh handle are what they were, so no second timer exists;
  when none is stored, \<open>autoUpdate\<close> decides whether exactly one timer is created.
\<close>

theorem initialize_timer_guard:
  assumes "initialize staffHierarchy d g autoUpdate (c, w) = (r, c', w')"
  shows "(updateInterval c \<noteq> None \<longrightarrow>
            updateInterval c' = updateInterval c \<and> timers w' = timers w \<and> nextTimer w' = nextTimer w) \<and>
         (updateInterval c = None \<and> autoUpdate \<longrightarrow>
            updateInterval c' = Some (nextTimer w) \<and> timers w' = timers w @ [nextTimer w]) \<and>
         (updateInterval c = None \<and> \<not> autoUpdate \<longrightarrow>
            updateInterval c' = None \<and> timers w' = timers w)"
proof -
  obtain r1 c1 w1 where run: "updateAllRoles staffHierarchy d (c\<lparr>guild := Some g\<rparr>, w) = (r1, c1, w1)"
    by (cases "updateAllRoles staffHierarchy d (c\<lparr>guild := Some g\<rparr>, w)")
  from updateAllRoles_frame [OF run]
  have fr: "updateInterval c1 = updateInterval c" "timers w1 = timers w" "nextTimer w1 = nextTimer w"
    by simp_all
  from assms show ?thesis
    unfolding initialize_eq [OF run] using fr by (auto split: if_splits)
qed

theorem initialize_timer_guard_witness:
  "updateInterval exCache \<noteq> None \<and>
   updateInterval (fst (snd (initialize exHierarchy exDiscord (Guild ''g'') True (exCache, exRuntime))))
     = updateInterval exCache \<and>
   timers (snd (snd (initialize exHierarchy exDiscord (Guild ''g'') True (exCache, exRuntime))))
     = timers exRuntime \<and>
   updateInterval newRoleCache = None \<and>
   updateInterval (fst (snd (initialize exHierarchy exDiscord (Guild ''g'') True (newRoleCache, bootRuntime 1000))))
     = Some 0 \<and>
   timers (snd (snd (initialize exHierarchy exDiscord (Guild ''g'') True (newRoleCache, bootRuntime 1000))))
     = [0] \<and>
   updateInterval (fst (snd (initialize exHierarchy exDiscord (Guild ''g'') False (newRoleCache, bootRuntime 1000))))
     = None \<and>
   timers (snd (snd (initialize exHierarchy exDiscord (Guild ''g'') False (newRoleCache, bootRuntime 1000))))
     = []"
proof -
  obtain r c' w' where run:
    "initialize exHierarchy exDiscord (Guild ''g'') True (exCache, exRuntime) = (r, c', w')"
    by (cases "initialize exHierarchy exDiscord (Guild ''g'') True (exCache, exRuntime)")
  obtain r2 c2 w2 where run2:
    "initialize exHierarchy exDiscord (Guild ''g'') False (newRoleCache, bootRuntime 1000) = (r2, c2, w2)"
    by (cases "initialize exHierarchy exDiscord (Guild ''g'') False (newRoleCache, bootRuntime 1000)")
  have a: "updateInterval exCache \<noteq> None" by (simp add: exCache_def)
  have b: "updateInterval newRoleCache = None" by (simp add: newRoleCache_def)
  have n: "nextTimer (bootRuntime 1000) = 0" "timers (bootRuntime 1000) = []"
    by (simp_all add: bootRuntime_def)
  from initialize_timer_guard [OF run] initialize_timer_guard [OF exInit]
    initialize_timer_guard [OF run2] a b n
  show ?thesis by (simp add: run run2 exInit)
qed

text \<open>
  Claim C4 as stated fails: \<open>initialize\<close> with \<open>autoUpdate = true\<close> on a fresh instance
  creates timer 0; a second \<open>initialize\<close> with \<open>autoUpdate = true\<close>, that timer still
  active, leaves the active timers at that single timer.
\<close>

theorem duplicate_timer_counterexample:
  "initialize exHierarchy exDiscord (Guild ''g'') True (newRoleCache, bootRuntime 1000)
     = (Fulfilled (), exCache, exRuntime) \<and>
   updateInterval exCache = Some 0 \<and> timers exRuntime = [0] \<and>
   fst (initialize exHierarchy exDiscord (Guild ''g'') True (exCache, exRuntime)) = Fulfilled () \<and>
   updateInterval (fst (snd (initialize exHierarchy exDiscord (Guild ''g'') True (exCache, exRuntime))))
     = Some 0 \<and>
   timers (snd (snd (initialize exHierarchy exDiscord (Guild ''g'') True (exCache, exRuntime)))) = [0]"
proof -
  have "initialize exHierarchy exDiscord (Guild ''g'') True (exCache, exRuntime) =
      (Fulfilled (),
       exCache\<lparr>cache := [(''100'', entryOf (exHierarchy ! 0) modRole 1083),
                         (''200'', entryOf (exHierarchy ! 1) srModRole 1086),
                         (''300'', entryOf (exHierarchy ! 2) adminRole 1086)]\<rparr>,
       \<lparr>now = 1086, timers = [0], nextTimer = 1, bulkFetches = 2\<rparr>)"
    by (simp add: initialize_def updateAllRoles_def updateAllRoles_try_def cacheRole_def
      startAutoUpdate_def exHierarchy_def exDiscord_def exCache_def exRuntime_def entryOf_def)
  then show ?thesis by (simp add: exInit) (simp add: exCache_def exRuntime_def)
qed

subsection \<open>Timestamps of a pass\<close>












end
